theory Spec2Isabelle
  imports Complex_Main "HOL-Library.AList"
begin

section \<open>Data model\<close>

text \<open>
  The inference scripts of the repository (\<open>complexity_detection/scripts/predict.py\<close>,
  \<open>complexity_detection/scripts/eval.py\<close>, \<open>recommender/scripts/predict.py\<close>) are embedded
  as HOL functions. Python exceptions are values of \<open>py_error\<close>, and every function that can raise
  returns \<open>py_error + 'a\<close>.

  Numbers: the scripts compute in IEEE double precision. The embedding computes in the
  real numbers, so every statement below is about the exact arithmetic that the doubles
  approximate; rounding, overflow and underflow of doubles are outside the model.

  Text: a \<open>string\<close> is a list of bytes and is read as ASCII. Lower-casing maps \<open>A..Z\<close> to
  \<open>a..z\<close>, a word character is a letter, a digit or the underscore.
\<close>

datatype py_error = ValueError | IndexError | TypeError | SystemExit | JSONDecodeError

text \<open>
  The JSON artifact read by \<open>load_model\<close>: \<open>model['tfidf']['vocabulary']\<close>,
  \<open>model['tfidf']['idf_weights']\<close>, \<open>model['classifier']['coefficients']\<close>,
  \<open>model['classifier']['intercepts']\<close>, \<open>model['classifier']['classes']\<close>. The vocabulary is a
  JSON object, kept as the list of its (key, index) entries; the keys of a parsed JSON object
  are distinct. The \<open>metadata\<close> block is not read by \<open>predict\<close>.
\<close>

record model =
  vocabulary :: "(string \<times> nat) list"
  idf_weights :: "real list"
  coefficients :: "real list list"
  intercepts :: "real list"
  classes :: "string list"

text \<open>The dictionary returned by \<open>predict\<close>; \<open>probabilities\<close> is a Python dict in insertion order.\<close>

record prediction =
  label :: string
  confidence :: real
  probabilities :: "(string \<times> real) list"

section \<open>Strings\<close>

definition lower_char :: "char \<Rightarrow> char" where
  "lower_char c =
     (let n = (of_char c :: nat) in if 65 \<le> n \<and> n \<le> 90 then char_of (n + 32) else c)"

text \<open>\<open>str.lower()\<close>\<close>

definition lower :: "string \<Rightarrow> string" where
  "lower s = map lower_char s"

text \<open>The regular expression class \<open>\w\<close> on ASCII.\<close>

definition is_word_char :: "char \<Rightarrow> bool" where
  "is_word_char c =
     (let n = (of_char c :: nat) in
        (48 \<le> n \<and> n \<le> 57) \<or> (65 \<le> n \<and> n \<le> 90) \<or> (97 \<le> n \<and> n \<le> 122) \<or> n = 95)"

text \<open>\<open>c in text\<close> for strings: \<open>c\<close> occurs as a contiguous substring of \<open>text\<close>.\<close>

fun contains :: "string \<Rightarrow> string \<Rightarrow> bool" where
  "contains [] c = (c = [])"
| "contains (x # xs) c = (take (length c) (x # xs) = c \<or> contains xs c)"

text \<open>\<open>xs.index(x)\<close>, used only after \<open>x in xs\<close> has been tested.\<close>

fun index_of :: "'a list \<Rightarrow> 'a \<Rightarrow> nat" where
  "index_of [] x = 0"
| "index_of (y # ys) x = (if y = x then 0 else Suc (index_of ys x))"

section \<open>The library's TF-IDF vectorizer\<close>

text \<open>
  \<open>predict\<close> builds \<open>TfidfVectorizer(vocabulary=...)\<close> with the library's default settings:
  the text is lower-cased, the tokens are the matches of \<open>\b\w\w+\b\<close> (the maximal runs of
  word characters of length at least two), and only single words are counted
  (\<open>ngram_range = (1, 1)\<close>).
\<close>

fun word_runs :: "string \<Rightarrow> string list" where
  "word_runs [] = [[]]"
| "word_runs (c # cs) =
     (if is_word_char c
      then (case word_runs cs of [] \<Rightarrow> [[c]] | w # ws \<Rightarrow> (c # w) # ws)
      else [] # word_runs cs)"

definition tokenize :: "string \<Rightarrow> string list" where
  "tokenize s = filter (\<lambda>w. 2 \<le> length w) (word_runs (lower s))"

text \<open>
  The library validates a vocabulary given as a mapping: no index twice, every index of
  \<open>range(len(vocabulary))\<close> present, and not empty; otherwise it raises \<open>ValueError\<close>.
\<close>

definition valid_vocabulary :: "(string \<times> nat) list \<Rightarrow> bool" where
  "valid_vocabulary vocab =
     (length (remdups (map snd vocab)) = length vocab
      \<and> list_all (\<lambda>i. i \<in> set (map snd vocab)) [0..<length vocab]
      \<and> vocab \<noteq> [])"

text \<open>
  Term counts: entry \<open>j\<close> is the number of tokens whose vocabulary index is \<open>j\<close>; a token that
  is not a key of the vocabulary is skipped.
\<close>

definition tf_vector :: "(string \<times> nat) list \<Rightarrow> string list \<Rightarrow> real list" where
  "tf_vector vocab toks =
     map (\<lambda>j. real (length (filter (\<lambda>t. map_of vocab t = Some j) toks))) [0..<length vocab]"

definition l2_norm :: "real list \<Rightarrow> real" where
  "l2_norm v = sqrt (sum_list (map (\<lambda>x. x * x) v))"

text \<open>Row normalisation: a row whose norm is zero is left as it is, nothing is divided.\<close>

definition l2_normalize :: "real list \<Rightarrow> real list" where
  "l2_normalize v = (let n = l2_norm v in if n = 0 then v else map (\<lambda>x. x / n) v)"

text \<open>
  The vectorizer of lines 39 to 41 on its two inputs: constructing it from the vocabulary,
  assigning \<open>idf_\<close> (which validates the vocabulary and requires
  \<open>len(idf_) = len(vocabulary)\<close>) and \<open>transform([message])\<close>.
\<close>

definition vectorize :: "(string \<times> nat) list \<Rightarrow> real list \<Rightarrow> string \<Rightarrow> py_error + real list" where
  "vectorize vocab idf message =
     (if \<not> valid_vocabulary vocab then Inl ValueError
      else if length vocab \<noteq> length idf then Inl ValueError
      else Inr (l2_normalize (map2 (*) (tf_vector vocab (tokenize message)) idf)))"

text \<open>Lines 39 to 42 of \<open>predict\<close>: \<open>X_array\<close> for the artifact \<open>model\<close>.\<close>

definition transform :: "model \<Rightarrow> string \<Rightarrow> py_error + real list" where
  "transform m message = vectorize (vocabulary m) (idf_weights m) message"

section \<open>Array operations\<close>

definition dot :: "real list \<Rightarrow> real list \<Rightarrow> real" where
  "dot u v = sum_list (map2 (*) u v)"

text \<open>
  \<open>np.dot(coefs, X_array)\<close> for the matrix built from a list of rows and a non-empty vector:
  the rows must all have the length of the vector. An empty list of rows, rows of different
  lengths and rows of another length raise \<open>ValueError\<close>.
\<close>

definition np_dot :: "real list list \<Rightarrow> real list \<Rightarrow> py_error + real list" where
  "np_dot coefs x =
     (if coefs \<noteq> [] \<and> list_all (\<lambda>row. length row = length x) coefs
      then Inr (map (\<lambda>row. dot row x) coefs)
      else Inl ValueError)"

text \<open>
  \<open>a + b\<close> on one-dimensional arrays, with broadcasting: equal lengths add entry by entry,
  an array of length one is added to every entry of the other, any other pair of lengths
  raises \<open>ValueError\<close>.
\<close>

definition np_add :: "real list \<Rightarrow> real list \<Rightarrow> py_error + real list" where
  "np_add a b =
     (if length a = length b then Inr (map2 (+) a b)
      else if length a = 1 then Inr (map (\<lambda>y. hd a + y) b)
      else if length b = 1 then Inr (map (\<lambda>x. x + hd b) a)
      else Inl ValueError)"

text \<open>\<open>scores[i] += v\<close>\<close>

definition add_at :: "real list \<Rightarrow> nat \<Rightarrow> real \<Rightarrow> py_error + real list" where
  "add_at scores i v =
     (if i < length scores then Inr (scores[i := scores ! i + v]) else Inl IndexError)"

text \<open>\<open>np.max\<close>: raises \<open>ValueError\<close> on an empty array.\<close>

definition np_max :: "real list \<Rightarrow> py_error + real" where
  "np_max x = (case x of [] \<Rightarrow> Inl ValueError | v # vs \<Rightarrow> Inr (fold max vs v))"

text \<open>\<open>np.argmax\<close>: the first index of the greatest entry.\<close>

definition np_argmax :: "real list \<Rightarrow> py_error + nat" where
  "np_argmax x = (case np_max x of Inl e \<Rightarrow> Inl e | Inr mx \<Rightarrow> Inr (index_of x mx))"

section \<open>Softmax\<close>

text \<open>\<open>softmax\<close> of \<open>predict.py\<close>: \<open>exp_x = np.exp(x - np.max(x)); return exp_x / exp_x.sum()\<close>\<close>

definition softmax :: "real list \<Rightarrow> py_error + real list" where
  "softmax x =
     (case np_max x of
        Inl e \<Rightarrow> Inl e
      | Inr mx \<Rightarrow>
          (let exp_x = map (\<lambda>v. exp (v - mx)) x
           in Inr (map (\<lambda>e. e / sum_list exp_x) exp_x)))"


section \<open>The complexity classifier: \<open>complexity_detection/scripts/predict.py\<close>\<close>

text \<open>
  The file at \<open>MODEL_PATH\<close> as \<open>load_model\<close> finds it: absent, present but not JSON, or
  present with the parsed content.
\<close>

datatype model_file = Missing | Malformed | Json model

text \<open>
  \<open>load_model\<close>: \<open>sys.exit(1)\<close> when the file does not exist, otherwise the result of
  \<open>json.load\<close>, returned as it is.
\<close>

definition load_model :: "model_file \<Rightarrow> py_error + model" where
  "load_model f =
     (case f of Missing \<Rightarrow> Inl SystemExit | Malformed \<Rightarrow> Inl JSONDecodeError | Json m \<Rightarrow> Inr m)"

text \<open>Line 46 on its inputs: \<open>np.dot(coefs, X_array) + intercepts\<close>\<close>

definition linear_scores :: "real list list \<Rightarrow> real list \<Rightarrow> real list \<Rightarrow> py_error + real list" where
  "linear_scores coefs b X_array =
     (case np_dot coefs X_array of
        Inl e \<Rightarrow> Inl e
      | Inr d \<Rightarrow> np_add d b)"

text \<open>Lines 43 to 46: \<open>scores\<close> for the artifact \<open>model\<close>.\<close>

definition raw_scores :: "model \<Rightarrow> real list \<Rightarrow> py_error + real list" where
  "raw_scores m X_array = linear_scores (coefficients m) (intercepts m) X_array"

text \<open>Line 47: \<open>text = f" {message.lower()} "\<close>\<close>

definition padded :: "string \<Rightarrow> string" where
  "padded message = '' '' @ lower message @ '' ''"

text \<open>Lines 49 and 50.\<close>

definition idx_complex :: "string list \<Rightarrow> nat" where
  "idx_complex cls = (if ''complex'' \<in> set cls then index_of cls ''complex'' else 1)"

definition idx_multistep :: "string list \<Rightarrow> nat" where
  "idx_multistep cls = (if ''multistep'' \<in> set cls then index_of cls ''multistep'' else 2)"

definition multistep_cues :: "string list" where
  "multistep_cues =
     ['' then '', '' and then '', '', then '', ''; then '', '' after '', '' followed by '',
      '' first '', '' second '', '' third '']"

definition complex_cues :: "string list" where
  "complex_cues =
     [''oauth'', ''oauth2'', ''oidc'', ''migrate'', ''migration'', ''deploy'', ''docker'',
      ''kubectl'', ''k8s'', ''s3'', ''pipeline'', ''airflow'', ''terraform'', ''ansible'',
      ''kafka'', ''stripe'', ''payment'', ''upload'', ''script'', ''bash'', ''nginx'', ''logs'']"

text \<open>\<open>any(c in text for c in cues)\<close>\<close>

definition any_cue :: "string list \<Rightarrow> string \<Rightarrow> bool" where
  "any_cue cues text = list_ex (contains text) cues"

text \<open>Lines 53 to 56: the two guarded in-place additions on \<open>scores\<close>.\<close>

definition overlay :: "string list \<Rightarrow> string \<Rightarrow> real list \<Rightarrow> py_error + real list" where
  "overlay cls message scores =
     (let text = padded message in
      case (if any_cue multistep_cues text then add_at scores (idx_multistep cls) 1.0
            else Inr scores) of
        Inl e \<Rightarrow> Inl e
      | Inr scores1 \<Rightarrow>
          (if any_cue complex_cues text then add_at scores1 (idx_complex cls) 1.5
           else Inr scores1))"

text \<open>
  A dict built by inserting the pairs from left to right: a key seen again keeps its place and
  takes the later value.
\<close>

definition dict_of :: "(string \<times> real) list \<Rightarrow> (string \<times> real) list" where
  "dict_of kvs = fold (\<lambda>kv d. AList.update (fst kv) (snd kv) d) kvs []"

text \<open>
  Lines 57 to 63. \<open>classes[pred_idx]\<close> raises \<open>IndexError\<close> when the greatest probability lies
  beyond the class list, and \<open>probs[i]\<close> for \<open>i in range(len(classes))\<close> raises it when there
  are fewer probabilities than classes.
\<close>

definition decide :: "string list \<Rightarrow> real list \<Rightarrow> py_error + prediction" where
  "decide cls scores =
     (case softmax scores of
        Inl e \<Rightarrow> Inl e
      | Inr probs \<Rightarrow>
          (case np_argmax probs of
             Inl e \<Rightarrow> Inl e
           | Inr pred_idx \<Rightarrow>
               if \<not> pred_idx < length cls then Inl IndexError
               else if length probs < length cls then Inl IndexError
               else Inr \<lparr>label = cls ! pred_idx,
                         confidence = probs ! pred_idx,
                         probabilities = dict_of (zip cls probs)\<rparr>))"

text \<open>The scores after line 56, before softmax.\<close>

definition adjusted_scores :: "model \<Rightarrow> string \<Rightarrow> py_error + real list" where
  "adjusted_scores m message =
     (case transform m message of
        Inl e \<Rightarrow> Inl e
      | Inr X_array \<Rightarrow>
          (case raw_scores m X_array of
             Inl e \<Rightarrow> Inl e
           | Inr scores \<Rightarrow> overlay (classes m) message scores))"

definition predict :: "model \<Rightarrow> string \<Rightarrow> py_error + prediction" where
  "predict m message =
     (case adjusted_scores m message of
        Inl e \<Rightarrow> Inl e
      | Inr scores \<Rightarrow> decide (classes m) scores)"

section \<open>The recommender: \<open>recommender/scripts/predict.py\<close>\<close>


text \<open>\<open>int(size.replace('b', ''))\<close> for a string of decimal digits and the letter \<open>b\<close>.\<close>

definition int_of_size :: "string \<Rightarrow> nat" where
  "int_of_size sz =
     fold (\<lambda>c n. 10 * n + (of_char c - 48)) (filter (\<lambda>c. c \<noteq> CHR ''b'') sz) 0"

definition sizes :: "string list" where
  "sizes = [''405b'', ''120b'', ''70b'', ''32b'', ''33b'', ''22b'', ''9b'', ''8b'', ''3b'']"

definition extract_model_features :: "string \<Rightarrow> nat \<times> nat \<times> nat" where
  "extract_model_features model_id =
     (let model_lower = lower model_id;
          has_coder = (if contains model_lower ''coder'' \<or> contains model_lower ''code''
                       then 1 else 0);
          has_instant = (if contains model_lower ''instant'' \<or> contains model_lower ''flash''
                         then 1 else 0);
          model_size = (case find (contains model_lower) sizes of
                          None \<Rightarrow> 0
                        | Some sz \<Rightarrow> int_of_size sz)
      in (has_coder, has_instant, model_size))"





section \<open>The artifact as shared Python objects\<close>

text \<open>
  The parsed artifact is a graph of mutable Python objects (a dict and lists) that every
  call of \<open>predict\<close> receives by reference. To state what a call does to these objects,
  \<open>predict\<close> is embedded a second time over an explicit heap: an object is a cell of the
  heap, a reference is its index, creating an object appends a cell, and an in-place update
  overwrites a cell. A JSON list of lists is a list of references to its rows.
\<close>

type_synonym ref = nat

datatype pyobj =
    Floats "real list"
  | Rows "ref list"
  | Matrix "real list list"
  | Dict "(string \<times> nat) list"
  | Strs "string list"

type_synonym heap = "pyobj list"

record model_refs =
  vocabulary_ref :: ref
  idf_weights_ref :: ref
  coefficients_ref :: ref
  intercepts_ref :: ref
  classes_ref :: ref

text \<open>A statement: it runs on a heap, returns a value or raises, and leaves a heap.\<close>

type_synonym 'a py = "heap \<Rightarrow> (py_error + 'a) \<times> heap"

definition ret :: "'a \<Rightarrow> 'a py" where
  "ret v h = (Inr v, h)"

definition lift :: "py_error + 'a \<Rightarrow> 'a py" where
  "lift r h = (r, h)"

definition bind :: "'a py \<Rightarrow> ('a \<Rightarrow> 'b py) \<Rightarrow> 'b py" where
  "bind f g h = (case f h of (Inl e, h') \<Rightarrow> (Inl e, h') | (Inr v, h') \<Rightarrow> g v h')"

text \<open>
  Reading a reference. A reference that holds an object of another kind than the script
  expects raises \<open>TypeError\<close>.
\<close>

definition cell :: "heap \<Rightarrow> ref \<Rightarrow> pyobj option" where
  "cell h r = (if r < length h then Some (h ! r) else None)"

definition get_floats :: "ref \<Rightarrow> real list py" where
  "get_floats r h = (case cell h r of Some (Floats xs) \<Rightarrow> (Inr xs, h) | _ \<Rightarrow> (Inl TypeError, h))"

definition get_matrix :: "ref \<Rightarrow> real list list py" where
  "get_matrix r h = (case cell h r of Some (Matrix xss) \<Rightarrow> (Inr xss, h) | _ \<Rightarrow> (Inl TypeError, h))"

definition get_dict :: "ref \<Rightarrow> (string \<times> nat) list py" where
  "get_dict r h = (case cell h r of Some (Dict d) \<Rightarrow> (Inr d, h) | _ \<Rightarrow> (Inl TypeError, h))"

definition get_strs :: "ref \<Rightarrow> string list py" where
  "get_strs r h = (case cell h r of Some (Strs ss) \<Rightarrow> (Inr ss, h) | _ \<Rightarrow> (Inl TypeError, h))"

fun read_rows :: "heap \<Rightarrow> ref list \<Rightarrow> real list list option" where
  "read_rows h [] = Some []"
| "read_rows h (r # rs) =
     (case cell h r of
        Some (Floats xs) \<Rightarrow> (case read_rows h rs of Some xss \<Rightarrow> Some (xs # xss) | None \<Rightarrow> None)
      | _ \<Rightarrow> None)"

definition get_rows :: "ref \<Rightarrow> real list list py" where
  "get_rows r h =
     (case cell h r of
        Some (Rows rs) \<Rightarrow> (case read_rows h rs of Some xss \<Rightarrow> (Inr xss, h) | None \<Rightarrow> (Inl TypeError, h))
      | _ \<Rightarrow> (Inl TypeError, h))"

text \<open>
  Creating an object: \<open>np.array(...)\<close> of a list, the result of an array expression,
  \<open>toarray()\<close>, and the copy \<open>dict(vocabulary)\<close> that the vectorizer keeps.
\<close>

definition new :: "pyobj \<Rightarrow> ref py" where
  "new v h = (Inr (length h), h @ [v])"

text \<open>\<open>scores[i] += v\<close> on the array object at \<open>r\<close>: the only in-place update of \<open>predict\<close>.\<close>

definition iadd :: "ref \<Rightarrow> nat \<Rightarrow> real \<Rightarrow> unit py" where
  "iadd r i v h =
     (case cell h r of
        Some (Floats xs) \<Rightarrow>
          if i < length xs then (Inr (), h[r := Floats (xs[i := xs ! i + v])])
          else (Inl IndexError, h)
      | _ \<Rightarrow> (Inl TypeError, h))"

text \<open>
  Lines 39 to 42: the vectorizer reads the vocabulary and copies it, \<open>np.array\<close> copies the
  idf weights, and the feature vector is a new array.
\<close>

definition transform_h :: "model_refs \<Rightarrow> string \<Rightarrow> ref py" where
  "transform_h refs message =
     bind (get_dict (vocabulary_ref refs)) (\<lambda>vocabulary.
     bind (new (Dict vocabulary)) (\<lambda>vocabulary_r.
     bind (get_floats (idf_weights_ref refs)) (\<lambda>idf_weights.
     bind (new (Floats idf_weights)) (\<lambda>idf_r.
     bind (get_dict vocabulary_r) (\<lambda>vocab.
     bind (get_floats idf_r) (\<lambda>idf.
     bind (lift (vectorize vocab idf message)) (\<lambda>X.
     new (Floats X))))))))"

text \<open>The value of \<open>X_array\<close> after line 42.\<close>

definition X_array_h :: "model_refs \<Rightarrow> string \<Rightarrow> real list py" where
  "X_array_h refs message = bind (transform_h refs message) get_floats"

text \<open>
  Lines 43 to 46: \<open>np.array\<close> copies the coefficient rows and the intercepts, and the sum
  is a new array, \<open>scores\<close>.
\<close>

definition scores_h :: "model_refs \<Rightarrow> ref \<Rightarrow> ref py" where
  "scores_h refs X_array_r =
     bind (get_rows (coefficients_ref refs)) (\<lambda>rows.
     bind (new (Matrix rows)) (\<lambda>coefs_r.
     bind (get_floats (intercepts_ref refs)) (\<lambda>intercepts_list.
     bind (new (Floats intercepts_list)) (\<lambda>intercepts_r.
     bind (get_matrix coefs_r) (\<lambda>coefs.
     bind (get_floats X_array_r) (\<lambda>X_array.
     bind (get_floats intercepts_r) (\<lambda>b.
     bind (lift (linear_scores coefs b X_array)) (\<lambda>s.
     new (Floats s)))))))))"

text \<open>Lines 53 to 56, on the array object \<open>scores\<close>.\<close>

definition overlay_h :: "ref \<Rightarrow> string list \<Rightarrow> string \<Rightarrow> unit py" where
  "overlay_h scores_r cls message =
     bind (if any_cue multistep_cues (padded message)
           then iadd scores_r (idx_multistep cls) 1.0 else ret ()) (\<lambda>_.
     if any_cue complex_cues (padded message)
     then iadd scores_r (idx_complex cls) 1.5 else ret ())"

text \<open>\<open>predict\<close>; \<open>classes\<close> is the list object of the artifact itself, which is only read.\<close>

definition predict_h :: "model_refs \<Rightarrow> string \<Rightarrow> prediction py" where
  "predict_h refs message =
     bind (transform_h refs message) (\<lambda>X_array_r.
     bind (scores_h refs X_array_r) (\<lambda>scores_r.
     bind (get_strs (classes_ref refs)) (\<lambda>cls.
     bind (overlay_h scores_r cls message) (\<lambda>_.
     bind (get_floats scores_r) (\<lambda>scores.
     lift (decide cls scores))))))"

text \<open>The artifact that the references of \<open>refs\<close> denote in a heap, if they denote one.\<close>

definition model_at :: "heap \<Rightarrow> model_refs \<Rightarrow> model option" where
  "model_at h refs =
     (case (cell h (vocabulary_ref refs), cell h (idf_weights_ref refs),
            cell h (coefficients_ref refs), cell h (intercepts_ref refs),
            cell h (classes_ref refs)) of
        (Some (Dict v), Some (Floats w), Some (Rows rs), Some (Floats b), Some (Strs cs)) \<Rightarrow>
          (case read_rows h rs of
             Some xss \<Rightarrow> Some \<lparr>vocabulary = v, idf_weights = w, coefficients = xss,
                               intercepts = b, classes = cs\<rparr>
           | None \<Rightarrow> None)
      | _ \<Rightarrow> None)"



section \<open>Notions used in the statements\<close>

text \<open>
  The softmax of a non-empty score vector \<open>x\<close> maps every entry through one function of the
  entry: \<open>sm_fun x\<close>.
\<close>

definition sm_fun :: "real list \<Rightarrow> real \<Rightarrow> real" where
  "sm_fun x v = exp (v - Max (set x)) / sum_list (map (\<lambda>u. exp (u - Max (set x))) x)"

text \<open>The first index at which a non-empty vector takes its greatest value.\<close>

definition best :: "real list \<Rightarrow> nat" where
  "best x = index_of x (Max (set x))"

text \<open>
  The fixture of the specification: two vocabulary entries, unit idf weights, three classes,
  only the row of \<open>complex\<close> non-zero, zero intercepts.
\<close>

definition fixture :: model where
  "fixture =
     \<lparr>vocabulary = [(''deploy'', 0), (''docker'', 1)],
      idf_weights = [1, 1],
      coefficients = [[0, 0], [1, 1], [0, 0]],
      intercepts = [0, 0, 0],
      classes = [''simple'', ''complex'', ''multistep'']\<rparr>"




text \<open>
  Two artifacts whose number of coefficient rows differs from the number of classes: three
  rows and one row, for two classes.
\<close>

definition three_rows :: model where
  "three_rows =
     \<lparr>vocabulary = [(''aa'', 0)],
      idf_weights = [1],
      coefficients = [[0], [0], [0]],
      intercepts = [1, 0, 0],
      classes = [''simple'', ''complex'']\<rparr>"

definition one_row :: model where
  "one_row =
     \<lparr>vocabulary = [(''aa'', 0)],
      idf_weights = [1],
      coefficients = [[0]],
      intercepts = [0],
      classes = [''simple'', ''complex'']\<rparr>"


text \<open>The fixture as objects of a heap.\<close>

definition fixture_heap :: heap where
  "fixture_heap =
     [Dict [(''deploy'', 0), (''docker'', 1)],
      Floats [1, 1],
      Floats [0, 0], Floats [1, 1], Floats [0, 0],
      Rows [2, 3, 4],
      Floats [0, 0, 0],
      Strs [''simple'', ''complex'', ''multistep'']]"

definition fixture_refs :: model_refs where
  "fixture_refs =
     \<lparr>vocabulary_ref = 0, idf_weights_ref = 1, coefficients_ref = 5,
      intercepts_ref = 6, classes_ref = 7\<rparr>"

section \<open>Softmax: order and normalisation\<close>

lemma np_max_Cons: "np_max (v # vs) = Inr (Max (set (v # vs)))"
  by (simp only: np_max_def list.case Max.set_eq_fold)

lemma np_max_nonempty: "x \<noteq> [] \<Longrightarrow> np_max x = Inr (Max (set x))"
  by (cases x) (simp_all add: np_max_Cons del: Max.set_eq_fold set_simps)

lemma sum_list_exp_pos: "x \<noteq> [] \<Longrightarrow> 0 < sum_list (map (\<lambda>v. exp (v - c)) x)" for c :: real
proof (induction x)
  case Nil
  then show ?case by simp
next
  case (Cons a x)
  have "0 \<le> sum_list (map (\<lambda>v. exp (v - c)) x)"
    by (rule sum_list_nonneg) auto
  moreover have "0 < exp (a - c)" by simp
  ultimately show ?case by (simp add: add_pos_nonneg)
qed

lemma softmax_Inr:
  assumes "x \<noteq> []"
  shows "softmax x =
    Inr (map (\<lambda>v. exp (v - Max (set x)) / sum_list (map (\<lambda>v. exp (v - Max (set x))) x)) x)"
  using assms by (simp add: softmax_def np_max_nonempty Let_def comp_def)





section \<open>The decision layer\<close>

lemma index_of_mem: "v \<in> set x \<Longrightarrow> index_of x v < length x \<and> x ! index_of x v = v"
  by (induction x) auto

lemma index_of_first: "i < index_of x v \<Longrightarrow> i < length x \<Longrightarrow> x ! i \<noteq> v"
proof (induction x arbitrary: i)
  case Nil
  then show ?case by simp
next
  case (Cons a x)
  then show ?case by (cases i) (auto split: if_splits)
qed

lemma index_of_map:
  assumes "inj_on f (insert v (set x))"
  shows "index_of (map f x) (f v) = index_of x v"
  using assms by (induction x) (auto simp: inj_on_def)

lemma Max_mem_list: "x \<noteq> [] \<Longrightarrow> Max (set x) \<in> set x"
  by (rule Max_in) simp_all

lemma np_argmax_nonempty: "x \<noteq> [] \<Longrightarrow> np_argmax x = Inr (index_of x (Max (set x)))"
  by (simp add: np_argmax_def np_max_nonempty)

lemma softmax_sm_fun: "x \<noteq> [] \<Longrightarrow> softmax x = Inr (map (sm_fun x) x)"
  by (simp add: softmax_Inr sm_fun_def)

lemma sm_fun_strict_mono: "x \<noteq> [] \<Longrightarrow> strict_mono (sm_fun x)"
  unfolding strict_mono_def sm_fun_def
  by (simp add: divide_strict_right_mono sum_list_exp_pos)

lemma Max_map_strict_mono:
  assumes "strict_mono f" "x \<noteq> []"
  shows "Max (set (map f x)) = f (Max (set x))"
proof -
  have "mono f" using assms(1) by (rule strict_mono_mono)
  then have "f (Max (set x)) = Max (f ` set x)"
    using assms(2) by (intro mono_Max_commute) simp_all
  then show ?thesis by simp
qed

lemma argmax_softmax:
  assumes "x \<noteq> []"
  shows "np_argmax (map (sm_fun x) x) = Inr (index_of x (Max (set x)))"
proof -
  have sm: "strict_mono (sm_fun x)" using assms by (rule sm_fun_strict_mono)
  then have "inj (sm_fun x)" by (rule strict_mono_imp_inj_on)
  then have inj: "inj_on (sm_fun x) (insert (Max (set x)) (set x))"
    by (rule inj_on_subset) simp
  have "np_argmax (map (sm_fun x) x)
      = Inr (index_of (map (sm_fun x) x) (Max (set (map (sm_fun x) x))))"
    using assms by (intro np_argmax_nonempty) simp
  also have "Max (set (map (sm_fun x) x)) = sm_fun x (Max (set x))"
    using sm assms by (rule Max_map_strict_mono)
  also have "index_of (map (sm_fun x) x) (sm_fun x (Max (set x))) = index_of x (Max (set x))"
    using inj by (rule index_of_map)
  finally show ?thesis .
qed

lemma best_props:
  assumes "x \<noteq> []"
  shows "best x < length x" "x ! best x = Max (set x)" "\<forall>i < length x. x ! i \<le> x ! best x"
proof -
  have "Max (set x) \<in> set x" using assms by (rule Max_mem_list)
  then show "best x < length x" "x ! best x = Max (set x)"
    unfolding best_def by (simp_all add: index_of_mem)
  then show "\<forall>i < length x. x ! i \<le> x ! best x" by simp
qed

lemma decide_nonempty:
  assumes "x \<noteq> []"
  shows "decide cls x =
     (if best x < length cls \<and> length cls \<le> length x
      then Inr \<lparr>label = cls ! best x, confidence = sm_fun x (x ! best x),
                probabilities = dict_of (zip cls (map (sm_fun x) x))\<rparr>
      else Inl IndexError)"
  using assms best_props(1)[OF assms]
  by (auto simp: decide_def softmax_sm_fun argmax_softmax best_def)

lemma decide_empty: "decide cls [] = Inl ValueError"
  by (simp add: decide_def softmax_def np_max_def)


lemma update_fresh: "k \<notin> fst ` set al \<Longrightarrow> AList.update k v al = al @ [(k, v)]"
  by (induction al) auto

lemma fold_update_distinct:
  "distinct (map fst (acc @ kvs)) \<Longrightarrow>
   fold (\<lambda>kv d. AList.update (fst kv) (snd kv) d) kvs acc = acc @ kvs"
proof (induction kvs arbitrary: acc)
  case Nil
  then show ?case by simp
next
  case (Cons kv kvs)
  have fresh: "fst kv \<notin> fst ` set acc" using Cons.prems by auto
  have "distinct (map fst ((acc @ [kv]) @ kvs))" using Cons.prems by simp
  from Cons.IH [OF this] show ?case
    by (simp add: update_fresh [OF fresh])
qed

lemma dict_of_distinct: "distinct (map fst kvs) \<Longrightarrow> dict_of kvs = kvs"
  unfolding dict_of_def using fold_update_distinct [of "[]" kvs] by simp

lemma zip_take_right: "zip xs (take (length xs) ys) = zip xs ys"
proof (induction xs arbitrary: ys)
  case Nil
  then show ?case by simp
next
  case (Cons a xs)
  then show ?case by (cases ys) simp_all
qed

lemma dict_of_zip:
  assumes "distinct cls" "length cls \<le> length p"
  shows "dict_of (zip cls p) = zip cls p" "map fst (zip cls p) = cls"
proof -
  show fst: "map fst (zip cls p) = cls"
    using assms(2) by (simp add: map_fst_zip_take)
  then show "dict_of (zip cls p) = zip cls p"
    using assms(1) by (simp add: dict_of_distinct)
qed

lemma predict_decide:
  "predict m message = Inr r \<Longrightarrow> \<exists>x. adjusted_scores m message = Inr x \<and> decide (classes m) x = Inr r"
  by (auto simp: predict_def split: sum.splits)


section \<open>The fixture\<close>

lemma fixture_tokens: "tokenize ''deploy docker'' = [''deploy'', ''docker'']"
  by code_simp

lemma fixture_vocabulary_valid: "valid_vocabulary (vocabulary fixture)"
  by code_simp

lemma fixture_tf: "tf_vector (vocabulary fixture) [''deploy'', ''docker''] = [1, 1]"
  by (simp add: tf_vector_def fixture_def upt_rec)

lemma normalize_ones: "l2_normalize [1, 1] = [1 / sqrt 2, 1 / sqrt 2]"
  by (simp add: l2_normalize_def l2_norm_def Let_def)

lemma fixture_transform: "transform fixture ''deploy docker'' = Inr [1 / sqrt 2, 1 / sqrt 2]"
proof -
  have "length (vocabulary fixture) = length (idf_weights fixture)" by (simp add: fixture_def)
  moreover have "idf_weights fixture = [1, 1]" by (simp add: fixture_def)
  ultimately show ?thesis
    by (simp add: transform_def vectorize_def fixture_vocabulary_valid fixture_tokens fixture_tf normalize_ones)
qed

lemma fixture_padded: "padded ''deploy docker'' = '' deploy docker ''"
  by code_simp

lemma fixture_complex_cue: "any_cue complex_cues (padded ''deploy docker'')"
  by code_simp
lemma fixture_no_multistep_cue: "\<not> any_cue multistep_cues (padded ''deploy docker'')"
  by code_simp

lemma two_div_sqrt_two: "2 / sqrt 2 = sqrt 2"
  by (simp add: real_div_sqrt)

lemma fixture_raw_scores: "raw_scores fixture [1 / sqrt 2, 1 / sqrt 2] = Inr [0, sqrt 2, 0]"
  using two_div_sqrt_two by (simp add: raw_scores_def linear_scores_def fixture_def np_dot_def np_add_def dot_def)

lemma fixture_idx_complex: "idx_complex (classes fixture) = 1"
  by code_simp

lemma fixture_adjusted: "adjusted_scores fixture ''deploy docker'' = Inr [0, sqrt 2 + 3 / 2, 0]"
  by (simp add: adjusted_scores_def fixture_transform fixture_raw_scores overlay_def fixture_complex_cue fixture_no_multistep_cue fixture_idx_complex add_at_def)

lemma best_middle: "0 < a \<Longrightarrow> best [0, a, 0] = 1"
  by (simp add: best_def)

lemma sqrt2_bounds: "1.414 < sqrt 2" "sqrt 2 < 1.415"
proof -
  show "1.414 < sqrt 2" by (rule real_less_rsqrt) (simp add: power2_eq_square)
  show "sqrt 2 < 1.415" by (rule real_less_lsqrt) (simp_all add: power2_eq_square)
qed

lemma fixture_predict:
  "predict fixture ''deploy docker'' =
     Inr \<lparr>label = ''complex'',
          confidence = sm_fun [0, sqrt 2 + 3 / 2, 0] (sqrt 2 + 3 / 2),
          probabilities = zip (classes fixture) (map (sm_fun [0, sqrt 2 + 3 / 2, 0]) [0, sqrt 2 + 3 / 2, 0])\<rparr>"
proof -
  have pos: "0 < sqrt 2 + 3 / 2" by (simp add: add_pos_pos)
  have b: "best [0, sqrt 2 + 3 / 2, 0] = 1" using pos by (rule best_middle)
  have cls: "classes fixture = [''simple'', ''complex'', ''multistep'']" by (simp add: fixture_def)
  have d: "dict_of (zip (classes fixture) (map (sm_fun [0, sqrt 2 + 3 / 2, 0]) [0, sqrt 2 + 3 / 2, 0]))
     = zip (classes fixture) (map (sm_fun [0, sqrt 2 + 3 / 2, 0]) [0, sqrt 2 + 3 / 2, 0])"
  proof (rule dict_of_zip(1))
    show "distinct (classes fixture)" by (simp add: cls)
    show "length (classes fixture) \<le> length (map (sm_fun [0, sqrt 2 + 3 / 2, 0]) [0, sqrt 2 + 3 / 2, 0])"
      by (simp add: cls)
  qed
  have l: "length (classes fixture) = 3" and n: "classes fixture ! 1 = ''complex''"
    by (simp_all add: cls)
  show ?thesis
    unfolding predict_def fixture_adjusted sum.case
    by (subst decide_nonempty) (use b d l n in simp_all)
qed

text \<open>
  Claim C1. On the fixture artifact the text \<open>deploy docker\<close> has the normalised feature
  vector \<open>[1/sqrt 2, 1/sqrt 2]\<close> (0.707 to three places), the raw logits \<open>[0, sqrt 2, 0]\<close>
  (1.414), the logits \<open>[0, sqrt 2 + 1.5, 0]\<close> (2.914) after the overlay has added 1.5 to the
  logit of \<open>complex\<close>, and \<open>predict\<close> returns the label \<open>complex\<close>.
\<close>

theorem fixture_classification:
  "transform fixture ''deploy docker'' = Inr [1 / sqrt 2, 1 / sqrt 2]
   \<and> \<bar>1 / sqrt 2 - 0.707\<bar> < 0.001
   \<and> raw_scores fixture [1 / sqrt 2, 1 / sqrt 2] = Inr [0, sqrt 2, 0]
   \<and> \<bar>sqrt 2 - 1.414\<bar> < 0.001
   \<and> adjusted_scores fixture ''deploy docker'' = Inr [0, sqrt 2 + 1.5, 0]
   \<and> \<bar>(sqrt 2 + 1.5) - 2.914\<bar> < 0.001
   \<and> (\<exists>r. predict fixture ''deploy docker'' = Inr r \<and> label r = ''complex'')"
proof -
  have a: "\<bar>sqrt 2 - 1.414\<bar> < 0.001" using sqrt2_bounds by simp
  have "1 / sqrt 2 = sqrt 2 / 2" using two_div_sqrt_two by (simp add: field_simps)
  then have b: "\<bar>1 / sqrt 2 - 0.707\<bar> < 0.001" using sqrt2_bounds by simp
  have c: "\<bar>(sqrt 2 + 1.5) - 2.914\<bar> < 0.001" using sqrt2_bounds by simp
  have d: "adjusted_scores fixture ''deploy docker'' = Inr [0, sqrt 2 + 1.5, 0]"
    using fixture_adjusted by simp
  have e: "\<exists>r. predict fixture ''deploy docker'' = Inr r \<and> label r = ''complex''"
    using fixture_predict by simp
  show ?thesis
    using fixture_transform b fixture_raw_scores a d c e by blast
qed

section \<open>Consistency of the returned prediction\<close>

text \<open>
  Claim C9. When the class list has no duplicates, every result that \<open>predict\<close> returns is
  consistent: the keys of \<open>probabilities\<close> are the classes, one entry each and in their order;
  looking the label up in \<open>probabilities\<close> gives \<open>confidence\<close>; and no entry of
  \<open>probabilities\<close> is greater than \<open>confidence\<close>.
\<close>

theorem prediction_consistent:
  assumes "distinct (classes m)" and "predict m message = Inr r"
  shows "map fst (probabilities r) = classes m
       \<and> map_of (probabilities r) (label r) = Some (confidence r)
       \<and> (\<forall>cp \<in> set (probabilities r). snd cp \<le> confidence r)"
proof -
  from assms(2) obtain x where x: "decide (classes m) x = Inr r"
    using predict_decide by blast
  then have ne: "x \<noteq> []" using decide_empty by auto
  let ?p = "map (sm_fun x) x"
  let ?i = "best x"
  from x ne have i: "?i < length (classes m)" and len: "length (classes m) \<le> length x"
    and r: "r = \<lparr>label = classes m ! ?i, confidence = sm_fun x (x ! ?i),
                 probabilities = dict_of (zip (classes m) ?p)\<rparr>"
    by (auto simp: decide_nonempty split: if_splits)
  have lenp: "length (classes m) \<le> length ?p" using len by simp
  have probs: "probabilities r = zip (classes m) ?p"
    using r dict_of_zip(1) [OF assms(1) lenp] by simp
  have keys: "map fst (probabilities r) = classes m"
    using probs dict_of_zip(2) [OF assms(1) lenp] by simp
  have conf: "confidence r = ?p ! ?i"
    using r best_props(1) [OF ne] by simp
  have "map_of (zip (classes m) (take (length (classes m)) ?p)) (classes m ! ?i)
          = Some (take (length (classes m)) ?p ! ?i)"
    using assms(1) i lenp by (intro map_of_zip_nth) simp_all
  moreover have "zip (classes m) (take (length (classes m)) ?p) = zip (classes m) ?p"
    by (rule zip_take_right)
  ultimately have look: "map_of (probabilities r) (label r) = Some (confidence r)"
    using probs conf r i by simp
  have top: "snd cp \<le> confidence r" if "cp \<in> set (probabilities r)" for cp
  proof -
    from that probs have "snd cp \<in> set ?p" by (metis set_zip_rightD prod.collapse)
    then obtain v where v: "v \<in> set x" "snd cp = sm_fun x v" by auto
    then have "v \<le> x ! ?i" using best_props(2) [OF ne] by simp
    then have "sm_fun x v \<le> sm_fun x (x ! ?i)"
      using sm_fun_strict_mono [OF ne] by (simp add: strict_mono_less_eq)
    then show ?thesis using v r by simp
  qed
  show ?thesis using keys look top by blast
qed


theorem prediction_consistent_witness:
  "distinct (classes fixture)
   \<and> (\<exists>r. predict fixture ''deploy docker'' = Inr r
          \<and> map fst (probabilities r) = [''simple'', ''complex'', ''multistep'']
          \<and> map_of (probabilities r) (label r) = Some (confidence r)
          \<and> snd (hd (probabilities r)) \<le> confidence r)"
proof -
  have d: "distinct (classes fixture)" by (simp add: fixture_def)
  from fixture_predict obtain r where r: "predict fixture ''deploy docker'' = Inr r"
    by blast
  note c = prediction_consistent [OF d r]
  from c have keys: "map fst (probabilities r) = [''simple'', ''complex'', ''multistep'']"
    by (simp add: fixture_def)
  then have "hd (probabilities r) \<in> set (probabilities r)"
    by (intro hd_in_set) auto
  with c have top: "snd (hd (probabilities r)) \<le> confidence r" by blast
  from c have look: "map_of (probabilities r) (label r) = Some (confidence r)" by blast
  from r keys look top have "\<exists>r. predict fixture ''deploy docker'' = Inr r
          \<and> map fst (probabilities r) = [''simple'', ''complex'', ''multistep'']
          \<and> map_of (probabilities r) (label r) = Some (confidence r)
          \<and> snd (hd (probabilities r)) \<le> confidence r"
    by (intro exI [of _ r] conjI)
  with d show ?thesis by (rule conjI)
qed

section \<open>The heuristic overlay\<close>

lemma contains_iff: "contains s c \<longleftrightarrow> (\<exists>ps ss. s = ps @ c @ ss)"
proof (induction s)
  case Nil
  then show ?case by auto
next
  case (Cons x xs)
  have pre: "take (length c) (x # xs) = c \<longleftrightarrow> (\<exists>ss. x # xs = c @ ss)"
    by (metis append_eq_conv_conj append_take_drop_id)
  show ?case
  proof
    assume "contains (x # xs) c"
    then consider "take (length c) (x # xs) = c" | "contains xs c" by auto
    then show "\<exists>ps ss. x # xs = ps @ c @ ss"
    proof cases
      case 1
      then obtain ss where "x # xs = c @ ss" using pre by blast
      then have "x # xs = [] @ c @ ss" by simp
      then show ?thesis by blast
    next
      case 2
      then obtain ps ss where "xs = ps @ c @ ss" using Cons.IH by blast
      then have "x # xs = (x # ps) @ c @ ss" by simp
      then show ?thesis by blast
    qed
  next
    assume "\<exists>ps ss. x # xs = ps @ c @ ss"
    then obtain ps ss where e: "x # xs = ps @ c @ ss" by blast
    show "contains (x # xs) c"
    proof (cases ps)
      case Nil
      then have "x # xs = c @ ss" using e by simp
      then have "take (length c) (x # xs) = c" using pre by blast
      then show ?thesis unfolding contains.simps by (rule disjI1)
    next
      case (Cons p ps')
      then have "xs = ps' @ c @ ss" using e by simp
      then have "contains xs c" using Cons.IH by blast
      then show ?thesis by simp
    qed
  qed
qed

lemma any_cue_iff: "any_cue cues text \<longleftrightarrow> (\<exists>c \<in> set cues. contains text c)"
  by (simp add: any_cue_def list_ex_iff)

lemma any_cue_count: "any_cue cues text \<longleftrightarrow> 0 < length (filter (contains text) cues)"
  by (auto simp: any_cue_iff filter_empty_conv)

lemma overlay_in_range:
  assumes "idx_multistep cls < length scores \<or> \<not> any_cue multistep_cues (padded message)"
    and "idx_complex cls < length scores \<or> \<not> any_cue complex_cues (padded message)"
  shows "overlay cls message scores =
     Inr (map (\<lambda>i. scores ! i
                 + (if any_cue multistep_cues (padded message) \<and> i = idx_multistep cls then 1 else 0)
                 + (if any_cue complex_cues (padded message) \<and> i = idx_complex cls then 3 / 2 else 0))
            [0..<length scores])"
proof -
  let ?ms = "any_cue multistep_cues (padded message)"
  let ?cx = "any_cue complex_cues (padded message)"
  show ?thesis
  proof (cases ?ms)
    case ms: True
    then have im: "idx_multistep cls < length scores" using assms(1) by simp
    show ?thesis
    proof (cases ?cx)
      case cx: True
      then have ic: "idx_complex cls < length scores" using assms(2) by simp
      show ?thesis
        using ms cx im ic
        by (simp add: overlay_def add_at_def Let_def) (rule nth_equalityI, simp_all add: nth_list_update)
    next
      case cx: False
      show ?thesis
        using ms cx im
        by (simp add: overlay_def add_at_def Let_def) (rule nth_equalityI, simp_all add: nth_list_update)
    qed
  next
    case ms: False
    show ?thesis
    proof (cases ?cx)
      case cx: True
      then have ic: "idx_complex cls < length scores" using assms(2) by simp
      show ?thesis
        using ms cx ic
        by (simp add: overlay_def add_at_def Let_def) (rule nth_equalityI, simp_all add: nth_list_update)
    next
      case cx: False
      show ?thesis
        using ms cx
        by (simp add: overlay_def add_at_def Let_def) (rule nth_equalityI, simp_all)
    qed
  qed
qed


lemma overlay_complex_out_of_range:
  assumes "any_cue complex_cues (padded message)" "\<not> idx_complex cls < length scores"
  shows "overlay cls message scores = Inl IndexError"
  using assms by (auto simp: overlay_def add_at_def Let_def split: sum.splits)

lemma overlay_length: "overlay cls message scores = Inr s \<Longrightarrow> length s = length scores"
  by (auto simp: overlay_def add_at_def Let_def split: if_splits sum.splits)







section \<open>Text without a token of the vocabulary\<close>

lemma tf_vector_oov:
  assumes "set toks \<inter> fst ` set vocab = {}"
  shows "tf_vector vocab toks = replicate (length vocab) 0"
proof -
  have "filter (\<lambda>t. map_of vocab t = Some j) toks = []" for j
  proof -
    have "map_of vocab t \<noteq> Some j" if "t \<in> set toks" for t
    proof -
      from that assms have "t \<notin> fst ` set vocab" by blast
      then have "map_of vocab t = None" by (simp add: map_of_eq_None_iff)
      then show ?thesis by simp
    qed
    then show ?thesis by (simp add: filter_empty_conv)
  qed
  then show ?thesis
    by (simp add: tf_vector_def map_replicate_const)
qed



lemma l2_norm_zeros: "l2_norm (replicate n 0) = 0"
  by (induction n) (simp_all add: l2_norm_def)

lemma l2_normalize_zeros: "l2_normalize (replicate n 0) = replicate n 0"
  by (simp add: l2_normalize_def l2_norm_zeros)











lemma fixture_idx_multistep: "idx_multistep (classes fixture) = 2"
  by code_simp






section \<open>Several cues of one class\<close>

text \<open>
  Claim C2, amended. When both target indices lie within the score vector, the overlay
  returns the scores with 1.0 added once at the index of \<open>multistep\<close> if at least one
  multistep cue occurs in the padded text, and 1.5 added once at the index of \<open>complex\<close> if
  at least one complex cue occurs, however many cues match; every other entry is unchanged.
\<close>

theorem overlay_adds_each_bonus_once:
  assumes "idx_multistep cls < length scores" and "idx_complex cls < length scores"
  shows "\<exists>s. overlay cls message scores = Inr s \<and> length s = length scores
     \<and> (\<forall>i < length scores. s ! i = scores ! i
           + (if 0 < length (filter (contains (padded message)) multistep_cues)
                 \<and> i = idx_multistep cls then 1 else 0)
           + (if 0 < length (filter (contains (padded message)) complex_cues)
                 \<and> i = idx_complex cls then 3 / 2 else 0))"
  using overlay_in_range [of cls scores message] assms
  by (simp add: any_cue_count)

lemma fixture_two_cues:
  "filter (contains (padded ''deploy docker'')) complex_cues = [''deploy'', ''docker'']"
  by code_simp

lemma fixture_no_multistep_count:
  "filter (contains (padded ''deploy docker'')) multistep_cues = []"
  by code_simp

theorem overlay_adds_each_bonus_once_witness:
  "idx_multistep (classes fixture) < length [0, sqrt 2, 0]
   \<and> idx_complex (classes fixture) < length [0, sqrt 2, 0]
   \<and> length (filter (contains (padded ''deploy docker'')) complex_cues) = 2
   \<and> (\<exists>s. overlay (classes fixture) ''deploy docker'' [0, sqrt 2, 0] = Inr s
          \<and> length s = 3 \<and> s ! 0 = 0 \<and> s ! 1 = sqrt 2 + 3 / 2 \<and> s ! 2 = 0)"
proof -
  have im: "idx_multistep (classes fixture) < length [0, sqrt 2, 0]"
    by (simp add: fixture_idx_multistep)
  have ic: "idx_complex (classes fixture) < length [0, sqrt 2, 0]"
    by (simp add: fixture_idx_complex)
  from overlay_adds_each_bonus_once [OF im ic, of "''deploy docker''"]
  obtain s where s: "overlay (classes fixture) ''deploy docker'' [0, sqrt 2, 0] = Inr s"
    "length s = length [0, sqrt 2, 0]"
    "\<forall>i < length [0, sqrt 2, 0]. s ! i = [0, sqrt 2, 0] ! i
           + (if 0 < length (filter (contains (padded ''deploy docker'')) multistep_cues)
                 \<and> i = idx_multistep (classes fixture) then 1 else 0)
           + (if 0 < length (filter (contains (padded ''deploy docker'')) complex_cues)
                 \<and> i = idx_complex (classes fixture) then 3 / 2 else 0)"
    by blast
  from s(3) have "s ! 0 = 0" "s ! 1 = sqrt 2 + 3 / 2" "s ! 2 = 0"
    by (simp_all add: fixture_two_cues fixture_no_multistep_count fixture_idx_complex
        fixture_idx_multistep)
  with s(1,2) have "\<exists>s. overlay (classes fixture) ''deploy docker'' [0, sqrt 2, 0] = Inr s
          \<and> length s = 3 \<and> s ! 0 = 0 \<and> s ! 1 = sqrt 2 + 3 / 2 \<and> s ! 2 = 0"
    by (intro exI [of _ s]) simp
  with im ic fixture_two_cues show ?thesis by simp
qed

text \<open>
  Claim C2 as stated fails: in the padded text of \<open>deploy docker\<close> two distinct complex cues
  occur, and the logit of \<open>complex\<close> goes from \<open>sqrt 2\<close> to \<open>sqrt 2 + 1.5\<close>, not to
  \<open>sqrt 2 + 2 * 1.5\<close>.
\<close>

theorem overlay_accumulates_counterexample:
  "filter (contains (padded ''deploy docker'')) complex_cues = [''deploy'', ''docker'']
   \<and> raw_scores fixture [1 / sqrt 2, 1 / sqrt 2] = Inr [0, sqrt 2, 0]
   \<and> adjusted_scores fixture ''deploy docker'' = Inr [0, sqrt 2 + 3 / 2, 0]
   \<and> sqrt 2 + 3 / 2 \<noteq> sqrt 2 + 2 * (3 / 2)"
  using fixture_two_cues fixture_raw_scores fixture_adjusted by simp

section \<open>Fallback indices of the overlay\<close>






section \<open>Norm of the feature vector\<close>









lemma tf_vector_nth:
  "j < length vocab \<Longrightarrow>
   tf_vector vocab toks ! j = real (length (filter (\<lambda>t. map_of vocab t = Some j) toks))"
  by (simp add: tf_vector_def)











section \<open>Loading an artifact\<close>

lemma raw_scores_length_rows:
  assumes "raw_scores m X = Inr scores" "length (coefficients m) = length (intercepts m)"
  shows "length scores = length (coefficients m)"
  using assms
  by (auto simp: raw_scores_def linear_scores_def np_dot_def np_add_def split: if_splits sum.splits)

lemma adjusted_scores_length:
  assumes "adjusted_scores m message = Inr x" "length (coefficients m) = length (intercepts m)"
  shows "length x = length (coefficients m)"
proof -
  from assms(1) obtain X scores where "raw_scores m X = Inr scores"
    "overlay (classes m) message scores = Inr x"
    by (auto simp: adjusted_scores_def split: sum.splits)
  then show ?thesis
    using assms(2) raw_scores_length_rows overlay_length by fastforce
qed

lemma update_length: "length (AList.update k v al) \<le> Suc (length al)"
  by (induction al) auto

lemma fold_update_length:
  "length (fold (\<lambda>kv d. AList.update (fst kv) (snd kv) d) kvs acc) \<le> length acc + length kvs"
proof (induction kvs arbitrary: acc)
  case Nil
  then show ?case by simp
next
  case (Cons kv kvs)
  have "length (fold (\<lambda>kv d. AList.update (fst kv) (snd kv) d) kvs
                  (AList.update (fst kv) (snd kv) acc))
        \<le> length (AList.update (fst kv) (snd kv) acc) + length kvs"
    by (rule Cons.IH)
  also have "\<dots> \<le> Suc (length acc) + length kvs"
    using update_length [of "fst kv" "snd kv" acc] by simp
  finally show ?case by simp
qed

lemma dict_of_length: "length (dict_of kvs) \<le> length kvs"
  unfolding dict_of_def using fold_update_length [of kvs "[]"] by simp

lemma decide_Inr:
  assumes "decide cls x = Inr r"
  shows "x \<noteq> []" "best x < length cls" "length cls \<le> length x"
    "r = \<lparr>label = cls ! best x, confidence = sm_fun x (x ! best x),
          probabilities = dict_of (zip cls (map (sm_fun x) x))\<rparr>"
proof -
  show ne: "x \<noteq> []" using assms decide_empty by auto
  from assms ne show "best x < length cls" "length cls \<le> length x"
    "r = \<lparr>label = cls ! best x, confidence = sm_fun x (x ! best x),
          probabilities = dict_of (zip cls (map (sm_fun x) x))\<rparr>"
    by (auto simp: decide_nonempty split: if_splits)
qed

text \<open>
  Claim C3, amended. \<open>load_model\<close> checks nothing: every artifact that parses is returned as
  it is, whatever its dimensions. A number of coefficient rows (and intercepts) different
  from the number of classes shows only in \<open>predict\<close>: with fewer rows than classes every
  call fails; with more rows than classes a call that returns gives a \<open>probabilities\<close>
  mapping with fewer entries than there are logits.
\<close>

theorem loader_does_not_validate:
  "load_model (Json m) = Inr m
   \<and> (length (coefficients m) = length (intercepts m)
        \<and> length (coefficients m) < length (classes m)
      \<longrightarrow> (\<exists>e. predict m message = Inl e))
   \<and> (length (coefficients m) = length (intercepts m)
        \<and> length (classes m) < length (coefficients m)
        \<and> predict m message = Inr r
      \<longrightarrow> length (probabilities r) < length (coefficients m))"
proof (intro conjI impI)
  show "load_model (Json m) = Inr m" by (simp add: load_model_def)
  show "\<exists>e. predict m message = Inl e"
    if h: "length (coefficients m) = length (intercepts m)
        \<and> length (coefficients m) < length (classes m)"
  proof (cases "predict m message")
    case (Inl e)
    then show ?thesis by blast
  next
    case (Inr r)
    then obtain x where x: "adjusted_scores m message = Inr x" "decide (classes m) x = Inr r"
      using predict_decide by blast
    from x(1) h have "length x = length (coefficients m)"
      by (intro adjusted_scores_length) simp_all
    moreover from x(2) have "length (classes m) \<le> length x" by (rule decide_Inr(3))
    ultimately show ?thesis using h by simp
  qed
  show "length (probabilities r) < length (coefficients m)"
    if h: "length (coefficients m) = length (intercepts m)
        \<and> length (classes m) < length (coefficients m)
        \<and> predict m message = Inr r"
  proof -
    from h obtain x where x: "decide (classes m) x = Inr r"
      using predict_decide by blast
    have "probabilities r = dict_of (zip (classes m) (map (sm_fun x) x))"
      using decide_Inr(4) [OF x] by simp
    then have "length (probabilities r) \<le> length (zip (classes m) (map (sm_fun x) x))"
      by (simp only: dict_of_length)
    also have "\<dots> \<le> length (classes m)" by simp
    finally show ?thesis using h by simp
  qed
qed


lemma hello_tokens: "set (tokenize ''hello'') \<inter> fst ` set [(''aa'', 0 :: nat)] = {}"
  by code_simp

lemma hello_no_cues:
  "\<not> any_cue multistep_cues (padded ''hello'')" "\<not> any_cue complex_cues (padded ''hello'')"
  by code_simp+

lemma three_rows_adjusted: "adjusted_scores three_rows ''hello'' = Inr [1, 0, 0]"
proof -
  have vv: "valid_vocabulary (vocabulary three_rows)" by code_simp
  have tf: "tf_vector (vocabulary three_rows) (tokenize ''hello'') = [0]"
    using tf_vector_oov [of "tokenize ''hello''" "vocabulary three_rows"] hello_tokens
    by (simp add: three_rows_def)
  have n: "l2_normalize [0] = [0]" using l2_normalize_zeros [of 1] by simp
  have tr: "transform three_rows ''hello'' = Inr [0]"
    using vv by (simp add: transform_def vectorize_def tf) (simp add: three_rows_def n)
  have rs: "raw_scores three_rows [0] = Inr [1, 0, 0]"
    by (simp add: raw_scores_def linear_scores_def np_dot_def np_add_def dot_def three_rows_def)
  show ?thesis
    by (simp add: adjusted_scores_def tr rs overlay_def hello_no_cues)
qed

lemma best_first: "best [1, 0, 0] = 0"
  by (simp add: best_def)

lemma three_rows_predict:
  "predict three_rows ''hello'' =
     Inr \<lparr>label = ''simple'', confidence = sm_fun [1, 0, 0] 1,
          probabilities = [(''simple'', sm_fun [1, 0, 0] 1), (''complex'', sm_fun [1, 0, 0] 0)]\<rparr>"
proof -
  have cls: "classes three_rows = [''simple'', ''complex'']" by (simp add: three_rows_def)
  have d: "dict_of [(''simple'', sm_fun [1, 0, 0] 1), (''complex'', sm_fun [1, 0, 0] 0)]
           = [(''simple'', sm_fun [1, 0, 0] 1), (''complex'', sm_fun [1, 0, 0] 0)]"
    by (rule dict_of_distinct) simp
  show ?thesis
    unfolding predict_def three_rows_adjusted sum.case cls
    by (subst decide_nonempty) (use best_first d in simp_all)
qed

text \<open>
  Claim C3 as stated fails: the artifact with three coefficient rows and two classes is
  loaded, and \<open>predict\<close> on it returns a result whose \<open>probabilities\<close> has the two entries
  of the classes, for three logits.
\<close>

theorem loader_rejects_counterexample:
  "length (coefficients three_rows) = 3
   \<and> length (classes three_rows) = 2
   \<and> load_model (Json three_rows) = Inr three_rows
   \<and> adjusted_scores three_rows ''hello'' = Inr [1, 0, 0]
   \<and> predict three_rows ''hello'' =
       Inr \<lparr>label = ''simple'', confidence = sm_fun [1, 0, 0] 1,
            probabilities = [(''simple'', sm_fun [1, 0, 0] 1), (''complex'', sm_fun [1, 0, 0] 0)]\<rparr>"
proof -
  have "length (coefficients three_rows) = 3" "length (classes three_rows) = 2"
    by (simp_all add: three_rows_def)
  moreover have "load_model (Json three_rows) = Inr three_rows" by (simp add: load_model_def)
  ultimately show ?thesis using three_rows_adjusted three_rows_predict by (intro conjI)
qed

theorem loader_does_not_validate_witness:
  "load_model (Json three_rows) = Inr three_rows
   \<and> length (coefficients one_row) = length (intercepts one_row)
   \<and> length (coefficients one_row) < length (classes one_row)
   \<and> (\<exists>e. predict one_row ''hello'' = Inl e)
   \<and> length (coefficients three_rows) = length (intercepts three_rows)
   \<and> length (classes three_rows) < length (coefficients three_rows)
   \<and> (\<exists>r. predict three_rows ''hello'' = Inr r \<and> length (probabilities r) < 3)"
proof -
  have a: "length (coefficients one_row) = length (intercepts one_row)"
    "length (coefficients one_row) < length (classes one_row)"
    by (simp_all add: one_row_def)
  have b: "length (coefficients three_rows) = length (intercepts three_rows)"
    "length (classes three_rows) < length (coefficients three_rows)"
    "length (coefficients three_rows) = 3"
    by (simp_all add: three_rows_def)
  obtain r where r: "predict three_rows ''hello'' = Inr r"
    using three_rows_predict by blast
  from loader_does_not_validate [of one_row "''hello''"] a
  have f: "\<exists>e. predict one_row ''hello'' = Inl e" by blast
  from loader_does_not_validate [of three_rows "''hello''" r] b r
  have l: "load_model (Json three_rows) = Inr three_rows"
    and t: "length (probabilities r) < 3" by simp_all
  from r t have "\<exists>r. predict three_rows ''hello'' = Inr r \<and> length (probabilities r) < 3"
    by blast
  with l a f b(1,2) show ?thesis by (intro conjI)
qed

section \<open>The recommender on unknown categorical values\<close>

lemma extract_example: "extract_model_features ''Qwen-2.5-Coder-32B'' = (1, 0, 32)"
  by code_simp







section \<open>Inference does not change the artifact\<close>

lemma cell_append: "cell h r = Some v \<Longrightarrow> cell (h @ k) r = Some v"
  by (auto simp: cell_def nth_append split: if_splits)

lemma cell_fresh: "cell (h @ [v]) (length h) = Some v"
  by (simp add: cell_def)

lemma cell_update_other: "cell h r = Some v \<Longrightarrow> r \<noteq> q \<Longrightarrow> cell (h[q := w]) r = Some v"
  by (auto simp: cell_def split: if_splits)

lemma read_rows_append: "read_rows h rs = Some xss \<Longrightarrow> read_rows (h @ k) rs = Some xss"
proof (induction rs arbitrary: xss)
  case Nil
  then show ?case by simp
next
  case (Cons r rs)
  then show ?case
    by (auto simp: cell_append split: option.splits pyobj.splits)
qed

lemma model_at_append:
  assumes "model_at h refs = Some m"
  shows "model_at (h @ k) refs = Some m"
  using assms unfolding model_at_def
  by (auto simp: cell_append read_rows_append split: option.splits pyobj.splits)

lemma model_at_cells:
  assumes "model_at h refs = Some m"
  shows "cell h (vocabulary_ref refs) = Some (Dict (vocabulary m))"
    "cell h (idf_weights_ref refs) = Some (Floats (idf_weights m))"
    "\<exists>rs. cell h (coefficients_ref refs) = Some (Rows rs) \<and> read_rows h rs = Some (coefficients m)"
    "cell h (intercepts_ref refs) = Some (Floats (intercepts m))"
    "cell h (classes_ref refs) = Some (Strs (classes m))"
  using assms unfolding model_at_def
  by (auto split: option.splits pyobj.splits)


lemma transform_h_run:
  assumes "model_at h refs = Some m"
  shows "transform_h refs message h =
     (case transform m message of
        Inl e \<Rightarrow> (Inl e, h @ [Dict (vocabulary m), Floats (idf_weights m)])
      | Inr X \<Rightarrow> (Inr (length h + 2),
                   h @ [Dict (vocabulary m), Floats (idf_weights m), Floats X]))"
proof -
  note c = model_at_cells [OF assms]
  have v: "cell (h @ [Dict (vocabulary m)]) (idf_weights_ref refs) = Some (Floats (idf_weights m))"
    using c(2) by (rule cell_append)
  have d: "cell (h @ [Dict (vocabulary m), Floats (idf_weights m)]) (length h)
           = Some (Dict (vocabulary m))"
    by (simp add: cell_def nth_append)
  have i: "cell (h @ [Dict (vocabulary m), Floats (idf_weights m)]) (Suc (length h))
           = Some (Floats (idf_weights m))"
    by (simp add: cell_def nth_append)
  show ?thesis
    by (simp add: transform_h_def bind_def get_dict_def get_floats_def new_def lift_def
        c(1) v d i transform_def split: sum.splits)
qed


lemma scores_h_run:
  assumes m: "model_at h refs = Some m" and X: "cell h X_r = Some (Floats X)"
  shows "scores_h refs X_r h =
     (case raw_scores m X of
        Inl e \<Rightarrow> (Inl e, h @ [Matrix (coefficients m), Floats (intercepts m)])
      | Inr s \<Rightarrow> (Inr (length h + 2),
                   h @ [Matrix (coefficients m), Floats (intercepts m), Floats s]))"
proof -
  note c = model_at_cells [OF m]
  from c(3) obtain rs where rs: "cell h (coefficients_ref refs) = Some (Rows rs)"
    "read_rows h rs = Some (coefficients m)" by blast
  let ?h1 = "h @ [Matrix (coefficients m)]"
  let ?h2 = "h @ [Matrix (coefficients m), Floats (intercepts m)]"
  have b: "cell ?h1 (intercepts_ref refs) = Some (Floats (intercepts m))"
    using c(4) by (rule cell_append)
  have mx: "cell ?h2 (length h) = Some (Matrix (coefficients m))"
    by (simp add: cell_def nth_append)
  have x: "cell ?h2 X_r = Some (Floats X)"
    using X by (rule cell_append)
  have b2: "cell ?h2 (Suc (length h)) = Some (Floats (intercepts m))"
    by (simp add: cell_def nth_append)
  show ?thesis
    by (simp add: scores_h_def bind_def get_rows_def get_floats_def get_matrix_def new_def
        lift_def rs b mx x b2 raw_scores_def split: sum.splits)
qed

lemma iadd_run:
  assumes "cell h r = Some (Floats s)"
  shows "iadd r i v h =
     (case add_at s i v of Inl e \<Rightarrow> (Inl e, h) | Inr s' \<Rightarrow> (Inr (), h[r := Floats s']))"
  using assms by (simp add: iadd_def add_at_def)

lemma cell_update_same: "cell h r = Some v \<Longrightarrow> cell (h[r := w]) r = Some w"
  by (auto simp: cell_def split: if_splits)

lemma overlay_h_run:
  assumes "cell h r = Some (Floats s)"
  shows "\<exists>s'. overlay_h r cls message h =
       (case overlay cls message s of Inl e \<Rightarrow> Inl e | Inr _ \<Rightarrow> Inr (), h[r := Floats s'])
     \<and> (\<forall>t. overlay cls message s = Inr t \<longrightarrow> s' = t)"
proof -
  have same: "h[r := Floats s] = h"
    using assms by (auto simp: cell_def list_update_same_conv split: if_splits)
  show ?thesis
  proof (cases "any_cue multistep_cues (padded message)")
    case ms: True
    show ?thesis
    proof (cases "add_at s (idx_multistep cls) 1")
      case (Inl e)
      then show ?thesis
        using ms same assms
        by (intro exI [of _ s]) (simp add: overlay_h_def overlay_def bind_def iadd_run)
    next
      case (Inr s1)
      then have c1: "cell (h[r := Floats s1]) r = Some (Floats s1)"
        using assms by (simp add: cell_update_same)
      show ?thesis
      proof (cases "any_cue complex_cues (padded message)")
        case cx: True
        show ?thesis
        proof (cases "add_at s1 (idx_complex cls) (3 / 2)")
          case e: (Inl e)
          then show ?thesis
            using ms cx Inr assms c1
            by (intro exI [of _ s1]) (simp add: overlay_h_def overlay_def bind_def iadd_run)
        next
          case s2: (Inr s2)
          then show ?thesis
            using ms cx Inr assms c1
            by (intro exI [of _ s2]) (simp add: overlay_h_def overlay_def bind_def iadd_run)
        qed
      next
        case cx: False
        then show ?thesis
          using ms Inr assms
          by (intro exI [of _ s1]) (simp add: overlay_h_def overlay_def bind_def iadd_run ret_def)
      qed
    qed
  next
    case ms: False
    show ?thesis
    proof (cases "any_cue complex_cues (padded message)")
      case cx: True
      show ?thesis
      proof (cases "add_at s (idx_complex cls) (3 / 2)")
        case (Inl e)
        then show ?thesis
          using ms cx same assms
          by (intro exI [of _ s]) (simp add: overlay_h_def overlay_def bind_def iadd_run ret_def)
      next
        case (Inr s2)
        then show ?thesis
          using ms cx assms
          by (intro exI [of _ s2]) (simp add: overlay_h_def overlay_def bind_def iadd_run ret_def)
      qed
    next
      case cx: False
      then show ?thesis
        using ms same
        by (intro exI [of _ s]) (simp add: overlay_h_def overlay_def bind_def ret_def)
    qed
  qed
qed


lemma predict_h_run:
  assumes m: "model_at h refs = Some m"
  shows "\<exists>h'. predict_h refs message h = (predict m message, h') \<and> take (length h) h' = h"
proof (cases "transform m message")
  case (Inl e)
  then show ?thesis
    using transform_h_run [OF m, of message]
    by (simp add: predict_h_def bind_def predict_def adjusted_scores_def)
next
  case X: (Inr X)
  define h1 where "h1 = h @ [Dict (vocabulary m), Floats (idf_weights m), Floats X]"
  have t: "transform_h refs message h = (Inr (length h + 2), h1)"
    using transform_h_run [OF m, of message] X by (simp add: h1_def)
  have m1: "model_at h1 refs = Some m" unfolding h1_def using m by (rule model_at_append)
  have x1: "cell h1 (length h + 2) = Some (Floats X)"
    by (simp add: h1_def cell_def nth_append)
  have l1: "length h1 = length h + 3" by (simp add: h1_def)
  have p1: "take (length h) h1 = h" by (simp add: h1_def)
  show ?thesis
  proof (cases "raw_scores m X")
    case (Inl e)
    then have "scores_h refs (length h + 2) h1
               = (Inl e, h1 @ [Matrix (coefficients m), Floats (intercepts m)])"
      using scores_h_run [OF m1 x1] by simp
    moreover have "take (length h) (h1 @ [Matrix (coefficients m), Floats (intercepts m)]) = h"
      using p1 l1 by simp
    ultimately show ?thesis
      using t X Inl by (simp add: predict_h_def bind_def predict_def adjusted_scores_def)
  next
    case s: (Inr s)
    define h2 where "h2 = h1 @ [Matrix (coefficients m), Floats (intercepts m), Floats s]"
    have sc: "scores_h refs (length h + 2) h1 = (Inr (length h1 + 2), h2)"
      using scores_h_run [OF m1 x1] s by (simp add: h2_def)
    have m2: "model_at h2 refs = Some m" unfolding h2_def using m1 by (rule model_at_append)
    have cl: "get_strs (classes_ref refs) h2 = (Inr (classes m), h2)"
      using model_at_cells(5) [OF m2] by (simp add: get_strs_def)
    have s2: "cell h2 (length h1 + 2) = Some (Floats s)"
      by (simp add: h2_def cell_def nth_append)
    from overlay_h_run [OF s2, of "classes m" message]
    obtain s' where ov: "overlay_h (length h1 + 2) (classes m) message h2 =
        (case overlay (classes m) message s of Inl e \<Rightarrow> Inl e | Inr _ \<Rightarrow> Inr (),
         h2[length h1 + 2 := Floats s'])"
      and s': "\<forall>t. overlay (classes m) message s = Inr t \<longrightarrow> s' = t"
      by blast
    define h3 where "h3 = h2[length h1 + 2 := Floats s']"
    have p3: "take (length h) h3 = h"
      using p1 l1 by (simp add: h3_def h2_def)
    have g: "get_floats (length h1 + 2) h3 = (Inr s', h3)"
      using cell_update_same [OF s2] by (simp add: get_floats_def h3_def)
    show ?thesis
    proof (cases "overlay (classes m) message s")
      case (Inl e)
      then show ?thesis
        using t sc cl ov X s p3
        by (simp add: predict_h_def bind_def predict_def adjusted_scores_def h3_def)
    next
      case (Inr adj)
      then have "s' = adj" using s' by simp
      then show ?thesis
        using t sc cl ov X s p3 g Inr
        by (simp add: predict_h_def bind_def predict_def adjusted_scores_def h3_def lift_def)
    qed
  qed
qed

lemma prefix_model_at:
  assumes "model_at h refs = Some m" "take (length h) h' = h"
  shows "model_at h' refs = Some m"
proof -
  have "h' = h @ drop (length h) h'"
    using assms(2) by (metis append_take_drop_id)
  then show ?thesis using model_at_append [OF assms(1)] by metis
qed


lemma X_array_h_run:
  assumes m: "model_at h refs = Some m"
  shows "\<exists>h'. X_array_h refs message h = (transform m message, h') \<and> take (length h) h' = h"
proof (cases "transform m message")
  case (Inl e)
  then show ?thesis
    using transform_h_run [OF m, of message] by (simp add: X_array_h_def bind_def)
next
  case (Inr X)
  moreover have "cell (h @ [Dict (vocabulary m), Floats (idf_weights m), Floats X]) (Suc (Suc (length h)))
      = Some (Floats X)"
    by (simp add: cell_def nth_append)
  ultimately show ?thesis
    using transform_h_run [OF m, of message]
    by (simp add: X_array_h_def bind_def get_floats_def)
qed

text \<open>
  Claim C8. Whenever the references denote an artifact in the heap, computing the feature
  vector of a text returns the value of the pure function \<open>transform\<close> on that artifact and
  the text, leaves every object that existed before as it was, and so leaves the artifact
  as it was; the same holds for a whole call of \<open>predict\<close>, whose only in-place update
  falls on an array created by the call. Hence a second computation on the heap left by the
  first, and a third after a call of \<open>predict\<close>, return the identical feature vector.
\<close>

theorem inference_does_not_mutate:
  assumes "model_at h refs = Some m"
  shows "\<exists>h1 h2 h3 h4.
       X_array_h refs message h = (transform m message, h1)
     \<and> X_array_h refs message h1 = (transform m message, h2)
     \<and> predict_h refs message h2 = (predict m message, h3)
     \<and> X_array_h refs message h3 = (transform m message, h4)
     \<and> take (length h) h1 = h \<and> take (length h1) h2 = h1
     \<and> take (length h2) h3 = h2 \<and> take (length h3) h4 = h3
     \<and> model_at h1 refs = Some m \<and> model_at h2 refs = Some m
     \<and> model_at h3 refs = Some m \<and> model_at h4 refs = Some m"
proof -
  from X_array_h_run [OF assms, of message]
  obtain h1 where h1: "X_array_h refs message h = (transform m message, h1)"
    "take (length h) h1 = h" by blast
  have m1: "model_at h1 refs = Some m" using assms h1(2) by (rule prefix_model_at)
  from X_array_h_run [OF m1, of message]
  obtain h2 where h2: "X_array_h refs message h1 = (transform m message, h2)"
    "take (length h1) h2 = h1" by blast
  have m2: "model_at h2 refs = Some m" using m1 h2(2) by (rule prefix_model_at)
  from predict_h_run [OF m2, of message]
  obtain h3 where h3: "predict_h refs message h2 = (predict m message, h3)"
    "take (length h2) h3 = h2" by blast
  have m3: "model_at h3 refs = Some m" using m2 h3(2) by (rule prefix_model_at)
  from X_array_h_run [OF m3, of message]
  obtain h4 where h4: "X_array_h refs message h3 = (transform m message, h4)"
    "take (length h3) h4 = h3" by blast
  have m4: "model_at h4 refs = Some m" using m3 h4(2) by (rule prefix_model_at)
  show ?thesis
    using h1 h2 h3 h4 m1 m2 m3 m4 by blast
qed

lemma fixture_heap_model: "model_at fixture_heap fixture_refs = Some fixture"
  by (simp add: model_at_def fixture_heap_def fixture_refs_def cell_def fixture_def)

theorem inference_does_not_mutate_witness:
  "model_at fixture_heap fixture_refs = Some fixture
   \<and> (\<exists>h1 h2 h3 h4.
         X_array_h fixture_refs ''deploy docker'' fixture_heap = (Inr [1 / sqrt 2, 1 / sqrt 2], h1)
       \<and> X_array_h fixture_refs ''deploy docker'' h1 = (Inr [1 / sqrt 2, 1 / sqrt 2], h2)
       \<and> predict_h fixture_refs ''deploy docker'' h2 = (predict fixture ''deploy docker'', h3)
       \<and> X_array_h fixture_refs ''deploy docker'' h3 = (Inr [1 / sqrt 2, 1 / sqrt 2], h4)
       \<and> model_at h4 fixture_refs = Some fixture)"
proof -
  from inference_does_not_mutate [OF fixture_heap_model, of "''deploy docker''"]
  obtain h1 h2 h3 h4 where
    "X_array_h fixture_refs ''deploy docker'' fixture_heap
       = (transform fixture ''deploy docker'', h1)"
    "X_array_h fixture_refs ''deploy docker'' h1 = (transform fixture ''deploy docker'', h2)"
    "predict_h fixture_refs ''deploy docker'' h2 = (predict fixture ''deploy docker'', h3)"
    "X_array_h fixture_refs ''deploy docker'' h3 = (transform fixture ''deploy docker'', h4)"
    "model_at h4 fixture_refs = Some fixture"
    by blast
  then have "\<exists>h1 h2 h3 h4.
         X_array_h fixture_refs ''deploy docker'' fixture_heap = (Inr [1 / sqrt 2, 1 / sqrt 2], h1)
       \<and> X_array_h fixture_refs ''deploy docker'' h1 = (Inr [1 / sqrt 2, 1 / sqrt 2], h2)
       \<and> predict_h fixture_refs ''deploy docker'' h2 = (predict fixture ''deploy docker'', h3)
       \<and> X_array_h fixture_refs ''deploy docker'' h3 = (Inr [1 / sqrt 2, 1 / sqrt 2], h4)
       \<and> model_at h4 fixture_refs = Some fixture"
    unfolding fixture_transform by blast
  with fixture_heap_model show ?thesis by (rule conjI)
qed

end
